theory Spec2Isabelle
  imports Main "HOL-Library.AList"
begin

section \<open>Text utilities\<close>

text \<open>
  Python strings are modelled as \<open>string\<close>. All labels are taken to be ASCII text: the
  character classes of the regular expressions of \<open>statisticstex.py\<close> are ASCII ranges,
  and upper-casing acts on the letters \<open>a\<close> to \<open>z\<close>.
\<close>

definition newline :: char where
  "newline = CHR 0x0A"

definition backslash :: char where
  "backslash = CHR 0x5C"

definition dquote :: char where
  "dquote = CHR 0x22"

text \<open>The character class \<open>[a-zA-Z]\<close>.\<close>

definition is_letter :: "char \<Rightarrow> bool" where
  "is_letter c = (let n = (of_char c :: nat) in (97 \<le> n \<and> n \<le> 122) \<or> (65 \<le> n \<and> n \<le> 90))"

text \<open>The character class \<open>[1-9]\<close>.\<close>

definition is_digit19 :: "char \<Rightarrow> bool" where
  "is_digit19 c = (let n = (of_char c :: nat) in 49 \<le> n \<and> n \<le> 57)"

definition upper_char :: "char \<Rightarrow> char" where
  "upper_char c = (let n = (of_char c :: nat) in if 97 \<le> n \<and> n \<le> 122 then char_of (n - 32) else c)"

text \<open>
  \<open>str.split(sep)\<close> for a one-character separator and \<open>re.split\<close> for a pattern that
  matches exactly one character: the text between consecutive delimiters, empty pieces
  included. A character that is no delimiter joins the first piece of the rest of the
  text; the rest always has a first piece, as the result is never the empty list.
\<close>

fun split_at :: "(char \<Rightarrow> bool) \<Rightarrow> string \<Rightarrow> string list" where
  "split_at d [] = [[]]"
| "split_at d (c # cs) =
     (case split_at d cs of
        [] \<Rightarrow> (if d c then [[], []] else [[c]])
      | w # ws \<Rightarrow> (if d c then [] # w # ws else (c # w) # ws))"

text \<open>\<open>int(text)\<close> on a text of decimal digits.\<close>

definition int_of_digits :: "string \<Rightarrow> nat" where
  "int_of_digits s = foldl (\<lambda>acc c. 10 * acc + ((of_char c :: nat) - 48)) 0 s"

subsection \<open>The helpers of \<open>benchexec.tablegenerator.util\<close>\<close>

text \<open>
  Modelled from the spec: \<open>util.number_to_roman_string\<close> (the module \<open>util\<close> is not
  among the sources). The spec calls it the Roman-numeral spelling of a positive integer;
  the model is the usual subtractive notation, computed greedily over the table of
  numerals from the largest value down.
\<close>

definition roman_numbers :: "(string \<times> nat) list" where
  "roman_numbers =
     [(''M'', 1000), (''CM'', 900), (''D'', 500), (''CD'', 400),
      (''C'', 100), (''XC'', 90), (''L'', 50), (''XL'', 40),
      (''X'', 10), (''IX'', 9), (''V'', 5), (''IV'', 4), (''I'', 1)]"

fun roman_loop :: "(string \<times> nat) list \<Rightarrow> nat \<Rightarrow> string" where
  "roman_loop [] number = []"
| "roman_loop ((roman, v) # rest) number =
     concat (replicate (number div v) roman) @ roman_loop rest (number mod v)"

definition number_to_roman_string :: "nat \<Rightarrow> string" where
  "number_to_roman_string number = roman_loop roman_numbers number"

text \<open>
  Modelled from the spec: \<open>util.cap_first_letter\<close> (not among the sources), which
  capitalizes the first letter of a word and tolerates the empty word.
\<close>

fun cap_first_letter :: "string \<Rightarrow> string" where
  "cap_first_letter [] = []"
| "cap_first_letter (c # cs) = upper_char c # cs"

section \<open>\<open>LatexCommand\<close>\<close>

text \<open>
  The substitution \<open>re.sub("^[1-9]+$", ...)\<close>. Without the multi-line flag \<open>$\<close> matches at
  the end of the text and also just before a newline that ends the text, so the digits
  may be followed by one final newline, which the substitution keeps.
\<close>

definition all_digits19 :: "string \<Rightarrow> bool" where
  "all_digits19 s = (s \<noteq> [] \<and> list_all is_digit19 s)"

definition sub_roman :: "string \<Rightarrow> string" where
  "sub_roman name =
     (if all_digits19 name then number_to_roman_string (int_of_digits name)
      else if name \<noteq> [] \<and> last name = newline \<and> all_digits19 (butlast name)
        then number_to_roman_string (int_of_digits (butlast name)) @ [newline]
      else name)"

definition format_command_part :: "string \<Rightarrow> string" where
  "format_command_part name =
     concat (map cap_first_letter (split_at (\<lambda>c. \<not> is_letter c) (sub_roman name)))"

record latex_command =
  benchmark_name :: string
  runset_name :: string
  column_title :: string
  column_category :: string
  column_subcategory :: string
  stat_type :: string
  cmd_value :: "string option"

text \<open>The constructor \<open>LatexCommand(benchmark_name, runset_name)\<close>.\<close>

definition new_latex_command :: "string \<Rightarrow> string \<Rightarrow> latex_command" where
  "new_latex_command b r =
     \<lparr>benchmark_name = format_command_part b,
      runset_name = format_command_part r,
      column_title = [],
      column_category = [],
      column_subcategory = [],
      stat_type = [],
      cmd_value = None\<rparr>"

text \<open>
  \<open>set_command_part\<close> stores into the attribute called \<open>part_name\<close>; a name that is none
  of the six parts creates an attribute that nothing reads.
\<close>

definition set_command_part :: "latex_command \<Rightarrow> string \<Rightarrow> string \<Rightarrow> latex_command" where
  "set_command_part c part_name part_value =
     (let v = format_command_part part_value in
      if part_name = ''benchmark_name'' then c\<lparr>benchmark_name := v\<rparr>
      else if part_name = ''runset_name'' then c\<lparr>runset_name := v\<rparr>
      else if part_name = ''column_title'' then c\<lparr>column_title := v\<rparr>
      else if part_name = ''column_category'' then c\<lparr>column_category := v\<rparr>
      else if part_name = ''column_subcategory'' then c\<lparr>column_subcategory := v\<rparr>
      else if part_name = ''stat_type'' then c\<lparr>stat_type := v\<rparr>
      else c)"

definition set_command_value :: "latex_command \<Rightarrow> string option \<Rightarrow> latex_command" where
  "set_command_value c v =
     c\<lparr>cmd_value := Some (case v of None \<Rightarrow> [] | Some s \<Rightarrow> s)\<rparr>"

text \<open>\<open>__repr__\<close>: the control sequence with the six identifier fragments.\<close>

definition braced :: "string \<Rightarrow> string" where
  "braced s = ''{'' @ s @ ''}''"

definition repr :: "latex_command \<Rightarrow> string" where
  "repr c =
     backslash # ''StoreBenchExecResult'' @ braced (benchmark_name c) @ braced (runset_name c)
       @ braced (column_title c) @ braced (column_category c)
       @ braced (column_subcategory c) @ braced (stat_type c)"

definition get_command_formatted :: "latex_command \<Rightarrow> string option \<Rightarrow> string" where
  "get_command_formatted c v =
     repr c @ braced (case v of None \<Rightarrow> [] | Some s \<Rightarrow> s)"

definition to_latex_raw :: "latex_command \<Rightarrow> string" where
  "to_latex_raw c = get_command_formatted c (cmd_value c)"

text \<open>The six-fragment identifier of a command.\<close>

definition command_id :: "latex_command \<Rightarrow> string \<times> string \<times> string \<times> string \<times> string \<times> string" where
  "command_id c =
     (benchmark_name c, runset_name c, column_title c, column_category c,
      column_subcategory c, stat_type c)"

section \<open>The input: run sets, columns and statistics\<close>

text \<open>
  A column carries its title, an optional display title, an optional unit and the
  capability \<open>format_value\<close>, a field of the record that renders a raw value of type
  \<open>'v\<close> as text; the generator calls it with the target \<open>csv\<close> only.
\<close>

record 'v column =
  title :: string
  display_title :: "string option"
  unit :: "string option"
  format_value :: "'v \<Rightarrow> string"

text \<open>
  A run set has the two attributes the generator reads and its columns. \<open>rs_id\<close> is
  \<open>id(run_set)\<close>, the identity of the object, by which the generator keys its table of
  formatted names.
\<close>

record 'v run_set =
  rs_id :: nat
  benchmarkname :: string
  niceName :: string
  columns :: "'v column list"

text \<open>
  \<open>StatValue\<close> and \<open>ColumnStatistics\<close> are read through \<open>__dict__.items()\<close>: the fields in
  their order of definition, each holding a value or \<open>None\<close>.
\<close>

type_synonym 'v stat_value = "(string \<times> 'v option) list"

type_synonym 'v column_statistics = "(string \<times> 'v stat_value option) list"

text \<open>The truth value of an optional text: neither \<open>None\<close> nor empty.\<close>

definition truthy :: "string option \<Rightarrow> bool" where
  "truthy s = (case s of None \<Rightarrow> False | Some t \<Rightarrow> t \<noteq> [])"

section \<open>The generator\<close>

definition TEX_HEADER :: string where
  "TEX_HEADER =
     ''% The following definition defines a command for each value.'' @ [newline]
     @ ''% The command name is the concatenation of the first six arguments.'' @ [newline]
     @ ''% To override this definition, define '' @ [backslash] @ ''StoreBenchExecResult with ''
     @ [backslash] @ ''newcommand before including this file.'' @ [newline]
     @ ''% Arguments: benchmark name, runset name, column title, column category, ''
     @ ''column subcategory, statistic, value'' @ [newline]
     @ [backslash] @ ''providecommand'' @ [backslash] @ ''StoreBenchExecResult[7]{''
     @ [backslash] @ ''expandafter'' @ [backslash] @ ''newcommand'' @ [backslash]
     @ ''csname#1#2#3#4#5#6'' @ [backslash] @ ''endcsname{#7}}%'' @ [newline]"

text \<open>The two warnings, as \<open>logging.warning\<close> formats them.\<close>

definition runset_warning :: "string \<Rightarrow> string \<Rightarrow> string" where
  "runset_warning name suffix =
     ''Duplicated formatted benchmark name + runset name '' @ [dquote] @ name @ [dquote]
     @ '' detected. The combination of names must be unique for Latex. Adding suffix ''
     @ suffix @ '' to benchmark name''"

definition column_warning :: "string \<Rightarrow> string \<Rightarrow> string" where
  "column_warning name suffix =
     ''Duplicated formatted column name '' @ [dquote] @ name @ [dquote]
     @ '' detected! Column names must be unique for Latex. Adding suffix ''
     @ suffix @ '' to column for now''"

subsection \<open>\<open>_column_statistic_to_latex_command\<close>\<close>

text \<open>
  The loop over the kinds of one \<open>StatValue\<close>. The command is one object that the loop
  updates and yields again and again; the consumer serializes it at every yield, so the
  model returns the command as it stands after the loop, and the list of its states at
  the yields.
\<close>

fun stat_kinds ::
  "'v column \<Rightarrow> latex_command \<Rightarrow> 'v stat_value \<Rightarrow> latex_command \<times> latex_command list" where
  "stat_kinds column command [] = (command, [])"
| "stat_kinds column command ((k, v) # rest) =
     (case v of
        None \<Rightarrow> stat_kinds column command rest
      | Some x \<Rightarrow>
          (let command1 = set_command_value (set_command_part command ''stat_type'' k)
                            (Some (format_value column x));
               (command2, yielded) = stat_kinds column command1 rest
           in (command2, command1 # yielded)))"

text \<open>The body of the loop over the statistic names, for one field of the record.\<close>

definition stat_name_commands ::
  "latex_command \<Rightarrow> 'v column \<Rightarrow> string \<times> 'v stat_value option \<Rightarrow> latex_command list" where
  "stat_name_commands init_command column field =
     (case snd field of
        None \<Rightarrow> []
      | Some stat_value \<Rightarrow>
          (let parts = split_at (\<lambda>c. c = CHR ''_'') (fst field);
               column_parts = (if length parts < 2 then parts @ [[]] else parts);
               command1 = set_command_part init_command ''column_category''
                            (concat (map cap_first_letter (butlast column_parts)));
               command2 = set_command_part command1 ''column_subcategory'' (last column_parts);
               (command3, yielded) = stat_kinds column command2 stat_value
           in yielded @
              (if truthy (unit column)
               then [set_command_value (set_command_part command3 ''stat_type'' ''unit'')
                       (unit column)]
               else [])))"

definition column_statistic_to_latex_command ::
  "latex_command \<Rightarrow> 'v column_statistics option \<Rightarrow> 'v column \<Rightarrow> latex_command list" where
  "column_statistic_to_latex_command init_command column_statistic column =
     (case column_statistic of
        None \<Rightarrow> []
      | Some entries \<Rightarrow> concat (map (stat_name_commands init_command column) entries))"

subsection \<open>\<open>_provide_latex_commands\<close>\<close>

definition select_column_name :: "'v column \<Rightarrow> string" where
  "select_column_name col = (if truthy (display_title col) then the (display_title col) else title col)"

text \<open>
  The loop over the columns paired with their statistics. \<open>total_count\<close> is the counter of all
  selected titles, \<open>used\<close> the table of the titles met so far; the result is the yielded
  commands and the warnings logged.
\<close>

fun columns_loop ::
  "(string \<Rightarrow> nat) \<Rightarrow> (string \<Rightarrow> nat) \<Rightarrow> latex_command
   \<Rightarrow> ('v column \<times> 'v column_statistics option) list \<Rightarrow> latex_command list \<times> string list" where
  "columns_loop total_count used current_command [] = ([], [])"
| "columns_loop total_count used current_command ((column, column_stats) # rest) =
     (let column_title = select_column_name column;
          used1 = used(column_title := used column_title + 1);
          duplicated = (total_count column_title > 1);
          suffix = number_to_roman_string (used1 column_title);
          warnings = (if duplicated then [column_warning column_title suffix] else []);
          column_title1 = (if duplicated then column_title @ suffix else column_title);
          command = set_command_part current_command ''column_title'' column_title1;
          yielded = column_statistic_to_latex_command command column_stats column;
          (yielded_rest, warnings_rest) = columns_loop total_count used1 command rest
      in (yielded @ yielded_rest, warnings @ warnings_rest))"

definition provide_latex_commands ::
  "'v run_set \<Rightarrow> 'v column_statistics option list \<Rightarrow> latex_command
   \<Rightarrow> latex_command list \<times> string list" where
  "provide_latex_commands run_set stat_list current_command =
     columns_loop (count_list (map select_column_name (columns run_set))) (\<lambda>_. 0)
       current_command (zip (columns run_set) stat_list)"

subsection \<open>\<open>write_tex_command_table\<close>\<close>

datatype error = KeyError

definition formatted_name :: "'v run_set \<Rightarrow> string \<times> string" where
  "formatted_name run_set =
     (format_command_part (benchmarkname run_set), format_command_part (niceName run_set))"

text \<open>
  The dictionary \<open>formatted_names\<close>, from the identity of a run set to its pair of
  formatted names, in insertion order.
\<close>

definition formatted_names :: "'v run_set list \<Rightarrow> (nat \<times> string \<times> string) list" where
  "formatted_names run_sets =
     foldl (\<lambda>names run_set. AList.update (rs_id run_set) (formatted_name run_set) names)
       [] run_sets"

text \<open>\<open>Counter(formatted_names.values())\<close>.\<close>

definition names_total_counts :: "(nat \<times> string \<times> string) list \<Rightarrow> string \<times> string \<Rightarrow> nat" where
  "names_total_counts names = count_list (map snd names)"

text \<open>
  The loop over the run sets paired with their lists of statistics. A lookup in
  \<open>names\<close> that finds nothing raises \<open>KeyError\<close>. The result is the commands in the order
  in which they are written, and the warnings logged.
\<close>

fun run_sets_loop ::
  "(nat \<times> string \<times> string) list \<Rightarrow> (string \<times> string \<Rightarrow> nat) \<Rightarrow> (string \<times> string \<Rightarrow> nat)
   \<Rightarrow> ('v run_set \<times> 'v column_statistics option list) list
   \<Rightarrow> error + (latex_command list \<times> string list)" where
  "run_sets_loop names total_count used [] = Inr ([], [])"
| "run_sets_loop names total_count used ((run_set, stat_list) # rest) =
     (case map_of names (rs_id run_set) of
        None \<Rightarrow> Inl KeyError
      | Some name_tuple \<Rightarrow>
          (let used1 = used(name_tuple := used name_tuple + 1);
               duplicated = (total_count name_tuple > 1);
               suffix = number_to_roman_string (used1 name_tuple);
               warnings =
                 (if duplicated
                  then [runset_warning (fst name_tuple @ snd name_tuple) suffix] else []);
               benchmark_name_formatted =
                 (if duplicated then fst name_tuple @ suffix else fst name_tuple);
               command = new_latex_command benchmark_name_formatted (snd name_tuple);
               (yielded, warnings1) = provide_latex_commands run_set stat_list command
           in case run_sets_loop names total_count used1 rest of
                Inl e \<Rightarrow> Inl e
              | Inr (yielded_rest, warnings_rest) \<Rightarrow>
                  Inr (yielded @ yielded_rest, warnings @ warnings1 @ warnings_rest)))"

text \<open>All commands of a generation pass, before they are serialized.\<close>

definition tex_commands ::
  "'v run_set list \<Rightarrow> 'v column_statistics option list list
   \<Rightarrow> error + (latex_command list \<times> string list)" where
  "tex_commands run_sets stats =
     (let names = formatted_names run_sets
      in run_sets_loop names (names_total_counts names) (\<lambda>_. 0) (zip run_sets stats))"

text \<open>One written line: the command, then the comment sign and the end of the line.\<close>

definition command_line :: "latex_command \<Rightarrow> string" where
  "command_line c = to_latex_raw c @ ''%'' @ [newline]"

text \<open>
  \<open>write_tex_command_table\<close> appends to the sink \<open>out\<close>; the result is the content of the
  sink after the pass and the warnings logged.
\<close>

definition write_tex_command_table ::
  "string \<Rightarrow> 'v run_set list \<Rightarrow> 'v column_statistics option list list
   \<Rightarrow> error + (string \<times> string list)" where
  "write_tex_command_table out run_sets stats =
     (case tex_commands run_sets stats of
        Inl e \<Rightarrow> Inl e
      | Inr (commands, warnings) \<Rightarrow>
          Inr (out @ TEX_HEADER @ concat (map command_line commands), warnings))"

section \<open>Notions used in the statements\<close>

text \<open>A fragment is capitalized when it holds letters only and starts, if not empty, with a capital.\<close>

definition is_upper :: "char \<Rightarrow> bool" where
  "is_upper c = (let n = (of_char c :: nat) in 65 \<le> n \<and> n \<le> 90)"

definition capitalized :: "string \<Rightarrow> bool" where
  "capitalized s = (list_all is_letter s \<and> (s \<noteq> [] \<longrightarrow> is_upper (hd s)))"

text \<open>The entries of an ordered mapping whose value is not \<open>None\<close>, in their order.\<close>

fun present :: "('a \<times> 'b option) list \<Rightarrow> ('a \<times> 'b) list" where
  "present [] = []"
| "present ((k, None) # rest) = present rest"
| "present ((k, Some x) # rest) = (k, x) # present rest"

text \<open>
  The parts of a statistic name, as the walker splits it: at least two, the last being
  the subcategory, the others together the category.
\<close>

definition name_parts :: "string \<Rightarrow> string list" where
  "name_parts stat_name =
     (let parts = split_at (\<lambda>c. c = CHR ''_'') stat_name
      in if length parts < 2 then parts @ [[]] else parts)"

definition stat_category :: "string \<Rightarrow> string" where
  "stat_category stat_name =
     format_command_part (concat (map cap_first_letter (butlast (name_parts stat_name))))"

definition stat_subcategory :: "string \<Rightarrow> string" where
  "stat_subcategory stat_name = format_command_part (last (name_parts stat_name))"

text \<open>
  The command of one leaf: the command the walker starts from, completed with the
  category and subcategory of the statistic name, the sanitized kind and the text of
  the value.
\<close>

definition leaf_command :: "latex_command \<Rightarrow> string \<Rightarrow> string \<Rightarrow> string \<Rightarrow> latex_command" where
  "leaf_command init stat_name kind text =
     init\<lparr>column_category := stat_category stat_name,
          column_subcategory := stat_subcategory stat_name,
          stat_type := format_command_part kind,
          cmd_value := Some text\<rparr>"

text \<open>A command with the kind and the rendered value of one entry of a \<open>StatValue\<close>.\<close>

definition kind_command :: "'v column \<Rightarrow> latex_command \<Rightarrow> string \<Rightarrow> 'v \<Rightarrow> latex_command" where
  "kind_command column c k x =
     c\<lparr>stat_type := format_command_part k, cmd_value := Some (format_value column x)\<rparr>"

text \<open>
  The collision resolver as the spec words it, over the candidate keys of a sequence of
  items: the occurrence index of item \<open>i\<close> counts the items up to \<open>i\<close>, itself included,
  that have its key; the suffix of an item is empty when its key occurs once in the whole
  sequence, and else the Roman numeral of its occurrence index.
\<close>

definition occurrence_index :: "'k list \<Rightarrow> nat \<Rightarrow> nat" where
  "occurrence_index keys i = count_list (take (Suc i) keys) (keys ! i)"

definition resolver_suffix :: "'k list \<Rightarrow> nat \<Rightarrow> string" where
  "resolver_suffix keys i =
     (if 2 \<le> count_list keys (keys ! i) then number_to_roman_string (occurrence_index keys i)
      else [])"

text \<open>
  The suffixes that a loop with the counter \<open>total_count\<close> and the table \<open>used\<close> gives to
  the keys it meets, in order.
\<close>

fun suffixes :: "('k \<Rightarrow> nat) \<Rightarrow> ('k \<Rightarrow> nat) \<Rightarrow> 'k list \<Rightarrow> string list" where
  "suffixes total_count used [] = []"
| "suffixes total_count used (k # ks) =
     (if total_count k > 1 then number_to_roman_string (used k + 1) else [])
     # suffixes total_count (used(k := used k + 1)) ks"

text \<open>
  The candidate keys at the two levels: the selected titles of the columns of a run set,
  as they are, and the pairs of formatted names of the run sets.
\<close>

definition column_titles :: "'v run_set \<Rightarrow> string list" where
  "column_titles run_set = map select_column_name (columns run_set)"

definition runset_keys :: "'v run_set list \<Rightarrow> (string \<times> string) list" where
  "runset_keys run_sets = map formatted_name run_sets"

text \<open>
  The leaf that a command carries: category, subcategory, kind and the text of the value
  as it is written.
\<close>

definition leaf_of :: "latex_command \<Rightarrow> string \<times> string \<times> string \<times> string" where
  "leaf_of c =
     (column_category c, column_subcategory c, stat_type c,
      case cmd_value c of None \<Rightarrow> [] | Some s \<Rightarrow> s)"

text \<open>
  The walker as the spec words it: for each statistic name whose value is present, in
  the order of the record, the leaves of its present kinds in their order, then the leaf
  of the unit if the column declares a non-empty one.
\<close>

definition walk :: "'v column \<Rightarrow> 'v column_statistics option \<Rightarrow> (string \<times> string \<times> string \<times> string) list" where
  "walk column record =
     (case record of
        None \<Rightarrow> []
      | Some entries \<Rightarrow>
          concat (map (\<lambda>(stat_name, stat_value).
                    map (\<lambda>(k, x). (stat_category stat_name, stat_subcategory stat_name,
                                   format_command_part k, format_value column x))
                      (present stat_value)
                    @ (if truthy (unit column)
                       then [(stat_category stat_name, stat_subcategory stat_name,
                              format_command_part ''unit'', the (unit column))]
                       else []))
            (present entries)))"

text \<open>The commands written and the warnings logged by a pass, none if it raised.\<close>

definition emitted :: "error + (latex_command list \<times> string list) \<Rightarrow> latex_command list" where
  "emitted r = (case r of Inl e \<Rightarrow> [] | Inr (commands, warnings) \<Rightarrow> commands)"

definition logged :: "error + (latex_command list \<times> string list) \<Rightarrow> string list" where
  "logged r = (case r of Inl e \<Rightarrow> [] | Inr (commands, warnings) \<Rightarrow> warnings)"

text \<open>The same run set as an object of another identity.\<close>

definition rename_id :: "(nat \<Rightarrow> nat) \<Rightarrow> 'v run_set \<Rightarrow> 'v run_set" where
  "rename_id f run_set = run_set\<lparr>rs_id := f (rs_id run_set)\<rparr>"

text \<open>
  The keys as the loop over the run sets finds them: for each listed run set, the entry
  that the table of formatted names holds for its identity. The suffix of the listed run
  set \<open>i\<close> is empty unless the table holds its key at least twice, and then the Roman
  numeral of the occurrence index of \<open>i\<close> among the listed keys.
\<close>

definition looked_up_keys :: "'v run_set list \<Rightarrow> (string \<times> string) list" where
  "looked_up_keys run_sets =
     map (\<lambda>run_set. the (map_of (formatted_names run_sets) (rs_id run_set))) run_sets"

definition runset_suffix :: "'v run_set list \<Rightarrow> nat \<Rightarrow> string" where
  "runset_suffix run_sets i =
     (if 2 \<le> names_total_counts (formatted_names run_sets) (looked_up_keys run_sets ! i)
      then number_to_roman_string (occurrence_index (looked_up_keys run_sets) i)
      else [])"

section \<open>Example inputs\<close>

text \<open>
  A column of integer values that renders them in decimal, and the command of a run set
  with its column title set, as the walker receives it.
\<close>

fun decimal :: "nat \<Rightarrow> string" where
  "decimal n = (if n < 10 then [char_of (48 + n)] else decimal (n div 10) @ [char_of (48 + n mod 10)])"

declare decimal.simps [simp del]

definition example_format :: "int \<Rightarrow> string" where
  "example_format v = (if v < 0 then ''-'' @ decimal (nat (- v)) else decimal (nat v))"

definition example_column :: "string \<Rightarrow> string option \<Rightarrow> int column" where
  "example_column t u =
     \<lparr>title = t, display_title = None, unit = u, format_value = example_format\<rparr>"

definition example_command :: latex_command where
  "example_command = set_command_part (new_latex_command ''svcomp'' ''tool a'') ''column_title'' ''cputime''"


text \<open>The two fragments of a command that come from its run set.\<close>

definition name_fragments :: "latex_command \<Rightarrow> string \<times> string" where
  "name_fragments c = (benchmark_name c, runset_name c)"

text \<open>
  Run sets whose columns have no display title and no unit, a record with one statistic
  of one kind, four run sets with the keys A, A, B, A and a run set with four columns
  titled t, t, u, t.
\<close>

definition example_run_set :: "nat \<Rightarrow> string \<Rightarrow> string \<Rightarrow> string list \<Rightarrow> int run_set" where
  "example_run_set i b n titles =
     \<lparr>rs_id = i, benchmarkname = b, niceName = n,
      columns = map (\<lambda>t. example_column t None) titles\<rparr>"

definition example_record :: "int column_statistics option" where
  "example_record = Some [(''total'', Some [(''sum'', Some 3)])]"


definition four_columns :: "int run_set" where
  "four_columns = example_run_set 0 ''a'' ''r'' [''t'', ''t'', ''u'', ''t'']"


text \<open>Two run sets with the same benchmark name and the same nice name.\<close>

definition twin_run_sets :: "int run_set list" where
  "twin_run_sets =
     [example_run_set 0 ''svcomp'' ''tool a'' [''cputime''],
      example_run_set 1 ''svcomp'' ''tool a'' [''cputime'']]"


text \<open>
  Run sets with two columns whose titles differ and are sanitized to the same fragment.
\<close>

definition score_run_set :: "int run_set" where
  "score_run_set = example_run_set 0 ''svcomp'' ''tool a'' [''score1'', ''score2'']"

definition cpu_run_set :: "int run_set" where
  "cpu_run_set = example_run_set 0 ''svcomp'' ''tool a'' [''cpu-time'', ''cpu time'']"


text \<open>
  Lists that name one run-set object more than once: an object twice and then another
  one with the same names, and an object twice.
\<close>

definition listed_thrice :: "int run_set list" where
  "listed_thrice =
     [example_run_set 0 ''svcomp'' ''tool a'' [''cputime''],
      example_run_set 0 ''svcomp'' ''tool a'' [''cputime''],
      example_run_set 1 ''svcomp'' ''tool a'' [''cputime'']]"


section \<open>The sanitizer\<close>

lemma is_upper_is_letter: "is_upper c \<Longrightarrow> is_letter c"
  by (simp add: is_upper_def is_letter_def Let_def)

lemma upper_char_is_upper: "is_letter c \<Longrightarrow> is_upper (upper_char c)"
  by (auto simp: is_letter_def is_upper_def upper_char_def Let_def)

lemma upper_char_upper: "is_upper c \<Longrightarrow> upper_char c = c"
  by (auto simp: is_upper_def upper_char_def Let_def)

lemma letter_not_digit: "is_letter c \<Longrightarrow> \<not> is_digit19 c"
  by (auto simp: is_letter_def is_digit19_def Let_def)

lemma letter_not_newline: "is_letter c \<Longrightarrow> c \<noteq> newline"
  by (auto simp: is_letter_def newline_def Let_def)

lemma split_at_nonempty: "split_at d s \<noteq> []"
  by (induction s) (auto split: list.splits)

lemma split_at_words: "w \<in> set (split_at d s) \<Longrightarrow> c \<in> set w \<Longrightarrow> \<not> d c"
proof (induction s arbitrary: w)
  case Nil
  then show ?case by simp
next
  case (Cons a s)
  obtain x xs where sp: "split_at d s = x # xs"
    using split_at_nonempty [of d s] by (cases "split_at d s") auto
  show ?case
  proof (cases "d a")
    case True
    with Cons sp show ?thesis by auto
  next
    case False
    with Cons.prems sp have "w = a # x \<or> w \<in> set xs" by auto
    then show ?thesis
    proof
      assume "w = a # x"
      with Cons.prems(2) have "c = a \<or> c \<in> set x" by auto
      then show ?thesis using False Cons.IH [of x] sp by auto
    next
      assume "w \<in> set xs"
      then show ?thesis using Cons.IH [of w] Cons.prems(2) sp by auto
    qed
  qed
qed

lemma split_at_none: "\<forall>c \<in> set s. \<not> d c \<Longrightarrow> split_at d s = [s]"
  by (induction s) auto

lemma cap_first_letter_letters: "list_all is_letter w \<Longrightarrow> capitalized (cap_first_letter w)"
  by (cases w) (auto simp: capitalized_def upper_char_is_upper is_upper_is_letter)

lemma cap_first_letter_capitalized: "capitalized w \<Longrightarrow> cap_first_letter w = w"
  by (cases w) (auto simp: capitalized_def upper_char_upper)

lemma capitalized_append: "capitalized u \<Longrightarrow> capitalized v \<Longrightarrow> capitalized (u @ v)"
  by (cases u) (auto simp: capitalized_def)

lemma capitalized_concat: "\<forall>w \<in> set ws. capitalized w \<Longrightarrow> capitalized (concat ws)"
proof (induction ws)
  case Nil
  show ?case by (simp add: capitalized_def)
next
  case (Cons w ws)
  then show ?case by (simp add: capitalized_append)
qed

lemma capitalized_format: "capitalized (format_command_part name)"
  unfolding format_command_part_def
  by (rule capitalized_concat)
     (auto intro!: cap_first_letter_letters simp: list_all_iff dest: split_at_words)

lemma sub_roman_letters: "list_all is_letter s \<Longrightarrow> sub_roman s = s"
proof -
  assume l: "list_all is_letter s"
  have a: "\<not> all_digits19 s"
    using l by (cases s) (auto simp: all_digits19_def letter_not_digit)
  have b: "\<not> (s \<noteq> [] \<and> last s = newline \<and> all_digits19 (butlast s))"
  proof
    assume h: "s \<noteq> [] \<and> last s = newline \<and> all_digits19 (butlast s)"
    then have "last s \<in> set s" by (intro last_in_set) simp
    with l have "is_letter (last s)" by (simp add: list_all_iff)
    with h show False by (simp add: letter_not_newline)
  qed
  show ?thesis unfolding sub_roman_def using a b by (simp only: if_False)
qed

lemma format_capitalized: "capitalized s \<Longrightarrow> format_command_part s = s"
proof -
  assume c: "capitalized s"
  then have l: "list_all is_letter s" by (simp add: capitalized_def)
  then have "split_at (\<lambda>c. \<not> is_letter c) s = [s]"
    by (intro split_at_none) (simp add: list_all_iff)
  with l c show ?thesis
    by (simp add: format_command_part_def sub_roman_letters cap_first_letter_capitalized)
qed

lemma capitalized_replicate: "capitalized r \<Longrightarrow> capitalized (concat (replicate n r))"
  by (rule capitalized_concat) simp

lemma capitalized_roman_loop:
  "\<forall>(r, v) \<in> set tbl. capitalized r \<Longrightarrow> capitalized (roman_loop tbl n)"
proof (induction tbl arbitrary: n)
  case Nil
  show ?case by (simp add: capitalized_def)
next
  case (Cons p tbl)
  obtain r v where p: "p = (r, v)" by (cases p)
  with Cons show ?case by (simp add: capitalized_append capitalized_replicate)
qed

lemma capitalized_roman: "capitalized (number_to_roman_string n)"
  unfolding number_to_roman_string_def
  by (rule capitalized_roman_loop) (simp add: roman_numbers_def capitalized_def is_letter_def is_upper_def)

lemma format_suffixed:
  "format_command_part (format_command_part b @ number_to_roman_string k)
     = format_command_part b @ number_to_roman_string k"
  by (intro format_capitalized capitalized_append capitalized_format capitalized_roman)

section \<open>The walker\<close>

lemma set_stat_type: "set_command_part c ''stat_type'' k = c\<lparr>stat_type := format_command_part k\<rparr>"
  by (simp add: set_command_part_def)

lemma set_column_category:
  "set_command_part c ''column_category'' k = c\<lparr>column_category := format_command_part k\<rparr>"
  by (simp add: set_command_part_def)

lemma set_column_subcategory:
  "set_command_part c ''column_subcategory'' k = c\<lparr>column_subcategory := format_command_part k\<rparr>"
  by (simp add: set_command_part_def)

lemma set_column_title:
  "set_command_part c ''column_title'' k = c\<lparr>column_title := format_command_part k\<rparr>"
  by (simp add: set_command_part_def)

lemma stat_kinds_yielded:
  "snd (stat_kinds column c kvs) = map (\<lambda>(k, x). kind_command column c k x) (present kvs)"
proof (induction kvs arbitrary: c rule: present.induct)
  case 1
  show ?case by simp
next
  case (2 k rest)
  then show ?case by simp
next
  case (3 k x rest)
  have "kind_command column (kind_command column c k x) = kind_command column c"
    by (intro ext) (simp add: kind_command_def)
  with 3 show ?case
    by (simp add: split_def Let_def set_stat_type set_command_value_def kind_command_def [symmetric])
qed

lemma stat_kinds_final:
  "(fst (stat_kinds column c kvs))\<lparr>stat_type := t, cmd_value := v\<rparr> = c\<lparr>stat_type := t, cmd_value := v\<rparr>"
proof (induction kvs arbitrary: c rule: present.induct)
  case 1
  show ?case by simp
next
  case (2 k rest)
  then show ?case by simp
next
  case (3 k x rest)
  then show ?case
    by (simp add: split_def Let_def set_stat_type set_command_value_def)
qed

lemma stat_name_commands_absent: "stat_name_commands init column (stat_name, None) = []"
  by (simp add: stat_name_commands_def)

lemma stat_name_commands_present:
  "stat_name_commands init column (stat_name, Some kvs) =
     map (\<lambda>(k, x). leaf_command init stat_name k (format_value column x)) (present kvs)
     @ (if truthy (unit column) then [leaf_command init stat_name ''unit'' (the (unit column))]
        else [])"
proof -
  let ?base = "init\<lparr>column_category := stat_category stat_name,
                      column_subcategory := stat_subcategory stat_name\<rparr>"
  have k: "kind_command column ?base k x = leaf_command init stat_name k (format_value column x)"
    for k x by (simp add: kind_command_def leaf_command_def)
  have u: "truthy (unit column) \<Longrightarrow>
      set_command_value (set_command_part (fst (stat_kinds column ?base kvs)) ''stat_type'' ''unit'')
        (unit column) = leaf_command init stat_name ''unit'' (the (unit column))"
    using stat_kinds_final [where column = column and c = ?base and kvs = kvs
        and t = "format_command_part ''unit''" and v = "Some (the (unit column))"]
    by (cases "unit column") (auto simp: truthy_def set_stat_type set_command_value_def leaf_command_def)
  show ?thesis
    using u
    by (simp add: stat_name_commands_def Let_def split_def set_column_category set_column_subcategory
        stat_category_def [symmetric] stat_subcategory_def [symmetric] name_parts_def [symmetric, unfolded Let_def]
        stat_kinds_yielded k)
qed

lemma present_append: "present (xs @ ys) = present xs @ present ys"
  by (induction xs rule: present.induct) auto

lemma present_all_absent: "\<forall>(k, v) \<in> set kvs. v = None \<Longrightarrow> present kvs = []"
  by (induction kvs rule: present.induct) auto

section \<open>The loops of the resolver\<close>

lemma length_suffixes: "length (suffixes total_count used ks) = length ks"
  by (induction ks arbitrary: used) auto

lemma suffixes_nth:
  "i < length ks \<Longrightarrow>
   suffixes total_count used ks ! i =
     (if total_count (ks ! i) > 1
      then number_to_roman_string (used (ks ! i) + count_list (take (Suc i) ks) (ks ! i))
      else [])"
proof (induction ks arbitrary: i used)
  case Nil
  then show ?case by simp
next
  case (Cons k ks)
  show ?case
  proof (cases i)
    case 0
    then show ?thesis by simp
  next
    case (Suc j)
    with Cons.prems have "j < length ks" by simp
    note ih = Cons.IH [OF this, of "used(k := Suc (used k))"]
    show ?thesis using Suc by (simp add: ih)
  qed
qed

lemma suffixes_resolver:
  assumes "i < n" and "n \<le> length keys"
  shows "suffixes (count_list keys) (\<lambda>_. 0) (take n keys) ! i = resolver_suffix keys i"
proof -
  have "take (Suc i) (take n keys) = take (Suc i) keys"
    using assms by (simp add: min_def)
  moreover have "take n keys ! i = keys ! i" using assms by simp
  moreover have "i < length (take n keys)" using assms by simp
  ultimately show ?thesis
    by (simp add: suffixes_nth resolver_suffix_def occurrence_index_def Suc_le_eq numeral_2_eq_2)
qed

lemma map_zip_nth:
  "length ys = length xs \<Longrightarrow> map f (zip xs ys) = map (\<lambda>i. f (xs ! i, ys ! i)) [0..<length xs]"
  by (rule nth_equalityI) auto

lemma columns_loop_eq:
  "columns_loop total_count used c zs =
     (concat (map (\<lambda>((column, column_stats), sfx).
                column_statistic_to_latex_command
                  (c\<lparr>column_title := format_command_part (select_column_name column @ sfx)\<rparr>)
                  column_stats column)
        (zip zs (suffixes total_count used (map (\<lambda>z. select_column_name (fst z)) zs)))),
      concat (map (\<lambda>((column, column_stats), sfx).
                if total_count (select_column_name column) > 1
                then [column_warning (select_column_name column) sfx] else [])
        (zip zs (suffixes total_count used (map (\<lambda>z. select_column_name (fst z)) zs)))))"
proof (induction zs arbitrary: used c)
  case Nil
  show ?case by simp
next
  case (Cons z zs)
  obtain column column_stats where z: "z = (column, column_stats)" by (cases z)
  show ?case
    unfolding z
    by (simp add: Let_def split_def set_column_title Cons.IH)
qed

lemma zip_keys: "map (\<lambda>z. f (fst z)) (zip xs ys) = take (length ys) (map f xs)"
proof -
  have "map (\<lambda>z. f (fst z)) (zip xs ys) = map f (map fst (zip xs ys))" by simp
  also have "\<dots> = map f (take (length ys) xs)" by (simp add: map_fst_zip_take min_def)
  finally show ?thesis by (simp add: take_map)
qed

lemma provide_latex_commands_eq:
  "provide_latex_commands run_set stat_list c =
     (concat (map (\<lambda>j. column_statistic_to_latex_command
                     (c\<lparr>column_title := format_command_part
                          (column_titles run_set ! j @ resolver_suffix (column_titles run_set) j)\<rparr>)
                     (stat_list ! j) (columns run_set ! j))
        [0..<min (length (columns run_set)) (length stat_list)]),
      concat (map (\<lambda>j. if 2 \<le> count_list (column_titles run_set) (column_titles run_set ! j)
                   then [column_warning (column_titles run_set ! j)
                           (resolver_suffix (column_titles run_set) j)]
                   else [])
        [0..<min (length (columns run_set)) (length stat_list)]))"
proof -
  let ?cols = "columns run_set"
  let ?titles = "column_titles run_set"
  let ?n = "min (length ?cols) (length stat_list)"
  let ?zs = "zip ?cols stat_list"
  let ?sfx = "suffixes (count_list ?titles) (\<lambda>_. 0) (map (\<lambda>z. select_column_name (fst z)) ?zs)"
  have keys: "map (\<lambda>z. select_column_name (fst z)) ?zs = take ?n ?titles"
    by (simp add: zip_keys column_titles_def take_map [symmetric] min_def)
  have len: "length ?sfx = length ?zs" by (simp add: length_suffixes)
  have lz: "length ?zs = ?n" by simp
  have sfx: "?sfx ! j = resolver_suffix ?titles j" if "j < ?n" for j
    unfolding keys using that by (intro suffixes_resolver) (simp_all add: column_titles_def)
  have t: "select_column_name (?cols ! j) = ?titles ! j" if "j < ?n" for j
    using that by (simp add: column_titles_def)
  have c: "(2 \<le> count_list ?titles k) = (count_list ?titles k > 1)" for k by auto
  show ?thesis
    unfolding provide_latex_commands_def columns_loop_eq column_titles_def [symmetric]
    by (simp only: map_zip_nth [OF len] lz)
       (auto intro!: arg_cong [where f = concat] simp: sfx t c)
qed

lemma run_sets_loop_eq:
  assumes "\<forall>z \<in> set zs. map_of names (rs_id (fst z)) = Some (key (fst z))"
  shows "run_sets_loop names total_count used zs =
     Inr (concat (map (\<lambda>((run_set, stat_list), sfx).
                    fst (provide_latex_commands run_set stat_list
                           (new_latex_command (fst (key run_set) @ sfx) (snd (key run_set)))))
            (zip zs (suffixes total_count used (map (\<lambda>z. key (fst z)) zs)))),
          concat (map (\<lambda>((run_set, stat_list), sfx).
                    (if total_count (key run_set) > 1
                     then [runset_warning (fst (key run_set) @ snd (key run_set)) sfx] else [])
                    @ snd (provide_latex_commands run_set stat_list
                           (new_latex_command (fst (key run_set) @ sfx) (snd (key run_set)))))
            (zip zs (suffixes total_count used (map (\<lambda>z. key (fst z)) zs)))))"
  using assms
proof (induction zs arbitrary: used)
  case Nil
  show ?case by simp
next
  case (Cons z zs)
  obtain run_set stat_list where z: "z = (run_set, stat_list)" by (cases z)
  have l: "map_of names (rs_id run_set) = Some (key run_set)" using Cons.prems z by simp
  have ih: "run_sets_loop names total_count used' zs = Inr (concat (map (\<lambda>((run_set, stat_list), sfx).
                    fst (provide_latex_commands run_set stat_list
                           (new_latex_command (fst (key run_set) @ sfx) (snd (key run_set)))))
            (zip zs (suffixes total_count used' (map (\<lambda>z. key (fst z)) zs)))),
          concat (map (\<lambda>((run_set, stat_list), sfx).
                    (if total_count (key run_set) > 1
                     then [runset_warning (fst (key run_set) @ snd (key run_set)) sfx] else [])
                    @ snd (provide_latex_commands run_set stat_list
                           (new_latex_command (fst (key run_set) @ sfx) (snd (key run_set)))))
            (zip zs (suffixes total_count used' (map (\<lambda>z. key (fst z)) zs)))))" for used'
    using Cons.prems by (intro Cons.IH) simp
  show ?case
    unfolding z
    by (simp add: l Let_def split_def ih)
qed

lemma formatted_names_fold_lookup:
  "(\<exists>v. map_of (foldl (\<lambda>names run_set. AList.update (rs_id run_set) (formatted_name run_set) names)
       acc run_sets) k = Some v)
   \<longleftrightarrow> k \<in> rs_id ` set run_sets \<or> (\<exists>v. map_of acc k = Some v)"
  by (induction run_sets arbitrary: acc) (auto simp: AList.update_conv')

lemma formatted_names_lookup:
  "r \<in> set run_sets \<Longrightarrow> \<exists>v. map_of (formatted_names run_sets) (rs_id r) = Some v"
  unfolding formatted_names_def formatted_names_fold_lookup by auto






section \<open>The order of the leaves\<close>

lemma leaf_of_leaf_command:
  "leaf_of (leaf_command init stat_name k text)
     = (stat_category stat_name, stat_subcategory stat_name, format_command_part k, text)"
  by (simp add: leaf_of_def leaf_command_def)

lemma walk_stat_name_commands:
  "concat (map (\<lambda>e. map leaf_of (stat_name_commands init column e)) entries)
     = walk column (Some entries)"
  unfolding walk_def
  by (induction entries rule: present.induct)
     (simp_all add: stat_name_commands_absent stat_name_commands_present leaf_of_leaf_command
        comp_def split_def)

lemma walk_eq:
  "map leaf_of (column_statistic_to_latex_command init column_statistic column)
     = walk column column_statistic"
proof (cases column_statistic)
  case None
  then show ?thesis by (simp add: column_statistic_to_latex_command_def walk_def)
next
  case (Some entries)
  then show ?thesis
    using walk_stat_name_commands [of init column entries]
    by (simp add: column_statistic_to_latex_command_def map_concat comp_def)
qed

lemma walk_provide_zip:
  "map leaf_of (fst (provide_latex_commands run_set stat_list c))
     = concat (map (\<lambda>(column, column_stats). walk column column_stats)
         (zip (columns run_set) stat_list))"
proof -
  let ?zs = "zip (columns run_set) stat_list"
  let ?sfx = "suffixes (count_list (map select_column_name (columns run_set))) (\<lambda>_. 0)
                (map (\<lambda>z. select_column_name (fst z)) ?zs)"
  have len: "length ?sfx = length ?zs" by (simp add: length_suffixes)
  have "map leaf_of (fst (provide_latex_commands run_set stat_list c))
      = concat (map (\<lambda>p. walk (fst (fst p)) (snd (fst p))) (zip ?zs ?sfx))"
    unfolding provide_latex_commands_def columns_loop_eq
    by (simp add: map_concat comp_def split_def walk_eq)
  also have "\<dots> = concat (map (\<lambda>z. walk (fst z) (snd z)) (map fst (zip ?zs ?sfx)))"
    by (simp add: comp_def)
  also have "map fst (zip ?zs ?sfx) = ?zs" using len by simp
  finally show ?thesis by (simp add: split_def)
qed

lemma walk_provide_nth:
  "map leaf_of (fst (provide_latex_commands run_set stat_list c))
     = concat (map (\<lambda>j. walk (columns run_set ! j) (stat_list ! j))
         [0..<min (length (columns run_set)) (length stat_list)])"
  unfolding provide_latex_commands_eq
  by (simp add: map_concat comp_def walk_eq)

lemma zip_fst_in: "z \<in> set (zip xs ys) \<Longrightarrow> fst z \<in> set xs"
  by (cases z) (auto dest: set_zip_leftD)

lemma tex_commands_total:
  "tex_commands run_sets stats =
     Inr (emitted (tex_commands run_sets stats), logged (tex_commands run_sets stats))"
proof -
  let ?names = "formatted_names run_sets"
  have "\<forall>z \<in> set (zip run_sets stats).
          map_of ?names (rs_id (fst z)) = Some (the (map_of ?names (rs_id (fst z))))"
  proof
    fix z assume "z \<in> set (zip run_sets stats)"
    then have "fst z \<in> set run_sets" by (rule zip_fst_in)
    from formatted_names_lookup [OF this] show
      "map_of ?names (rs_id (fst z)) = Some (the (map_of ?names (rs_id (fst z))))" by auto
  qed
  from run_sets_loop_eq [OF this] show ?thesis
    by (simp add: tex_commands_def Let_def emitted_def logged_def)
qed

lemma walk_tex_commands_zip:
  "map leaf_of (emitted (tex_commands run_sets stats))
     = concat (map (\<lambda>(run_set, stat_list).
         concat (map (\<lambda>(column, column_stats). walk column column_stats)
           (zip (columns run_set) stat_list)))
         (zip run_sets stats))"
proof -
  let ?names = "formatted_names run_sets"
  let ?key = "\<lambda>r. the (map_of ?names (rs_id r))"
  let ?zs = "zip run_sets stats"
  let ?sfx = "suffixes (names_total_counts ?names) (\<lambda>_. 0) (map (\<lambda>z. ?key (fst z)) ?zs)"
  have look: "\<forall>z \<in> set ?zs. map_of ?names (rs_id (fst z)) = Some (?key (fst z))"
  proof
    fix z assume "z \<in> set ?zs"
    then have "fst z \<in> set run_sets" by (rule zip_fst_in)
    from formatted_names_lookup [OF this] show
      "map_of ?names (rs_id (fst z)) = Some (?key (fst z))" by auto
  qed
  have len: "length ?sfx = length ?zs" by (simp add: length_suffixes)
  have "map leaf_of (emitted (tex_commands run_sets stats))
      = concat (map (\<lambda>p. concat (map (\<lambda>(column, column_stats). walk column column_stats)
           (zip (columns (fst (fst p))) (snd (fst p))))) (zip ?zs ?sfx))"
    unfolding tex_commands_def Let_def run_sets_loop_eq [OF look] emitted_def
    by (simp add: map_concat comp_def split_def walk_provide_zip)
  also have "\<dots> = concat (map (\<lambda>z. concat (map (\<lambda>(column, column_stats). walk column column_stats)
           (zip (columns (fst z)) (snd z)))) (map fst (zip ?zs ?sfx)))"
    by (simp add: comp_def)
  also have "map fst (zip ?zs ?sfx) = ?zs" using len by simp
  finally show ?thesis by (simp add: split_def)
qed

lemma walk_tex_commands_nth:
  "map leaf_of (emitted (tex_commands run_sets stats))
     = concat (map (\<lambda>i.
         concat (map (\<lambda>j. walk (columns (run_sets ! i) ! j) (stats ! i ! j))
           [0..<min (length (columns (run_sets ! i))) (length (stats ! i))]))
         [0..<min (length run_sets) (length stats)])"
proof -
  have z: "zip run_sets stats = map (\<lambda>i. (run_sets ! i, stats ! i)) [0..<min (length run_sets) (length stats)]"
    by (rule nth_equalityI) auto
  have p: "concat (map (\<lambda>(column, column_stats). walk column column_stats) (zip cs sl))
     = concat (map (\<lambda>j. walk (cs ! j) (sl ! j)) [0..<min (length cs) (length sl)])"
    for cs :: "'a column list" and sl
  proof -
    have "zip cs sl = map (\<lambda>j. (cs ! j, sl ! j)) [0..<min (length cs) (length sl)]"
      by (rule nth_equalityI) auto
    then show ?thesis by (simp add: comp_def)
  qed
  show ?thesis
    unfolding walk_tex_commands_zip
    by (subst z) (simp add: comp_def p)
qed

section \<open>The identity of the run sets and the fragments of a command\<close>

lemma update_rename:
  "inj_on f (insert k (fst ` set al)) \<Longrightarrow>
   AList.update (f k) v (map (\<lambda>p. (f (fst p), snd p)) al)
     = map (\<lambda>p. (f (fst p), snd p)) (AList.update k v al)"
proof (induction al)
  case Nil
  show ?case by simp
next
  case (Cons p al)
  have i: "inj_on f (insert k (fst ` set al))"
    by (rule inj_on_subset [OF Cons.prems]) auto
  have e: "(f (fst p) = f k) = (fst p = k)"
    using Cons.prems by (auto simp: inj_on_def)
  show ?case using Cons.IH [OF i] by (simp add: e)
qed

lemma formatted_name_rename [simp]: "formatted_name (rename_id f r) = formatted_name r"
  by (simp add: formatted_name_def rename_id_def)

lemma formatted_names_fold_keys:
  "fst ` set (foldl (\<lambda>names run_set. AList.update (rs_id run_set) (formatted_name run_set) names)
       acc run_sets) = fst ` set acc \<union> rs_id ` set run_sets"
  by (induction run_sets arbitrary: acc) (auto simp: AList.dom_update)

lemma formatted_names_fold_rename:
  "inj_on f (fst ` set acc \<union> rs_id ` set run_sets) \<Longrightarrow>
   foldl (\<lambda>names run_set. AList.update (rs_id run_set) (formatted_name run_set) names)
     (map (\<lambda>p. (f (fst p), snd p)) acc) (map (rename_id f) run_sets)
   = map (\<lambda>p. (f (fst p), snd p))
       (foldl (\<lambda>names run_set. AList.update (rs_id run_set) (formatted_name run_set) names)
          acc run_sets)"
proof (induction run_sets arbitrary: acc)
  case Nil
  show ?case by simp
next
  case (Cons r rs)
  have i: "inj_on f (insert (rs_id r) (fst ` set acc))"
    by (rule inj_on_subset [OF Cons.prems]) auto
  have j: "inj_on f (fst ` set (AList.update (rs_id r) (formatted_name r) acc) \<union> rs_id ` set rs)"
    by (rule inj_on_subset [OF Cons.prems]) (auto simp: AList.dom_update)
  have "rs_id (rename_id f r) = f (rs_id r)" by (simp add: rename_id_def)
  then show ?case
    using Cons.IH [OF j] by (simp add: update_rename [OF i])
qed

lemma formatted_names_rename:
  "inj_on f (rs_id ` set run_sets) \<Longrightarrow>
   formatted_names (map (rename_id f) run_sets)
     = map (\<lambda>p. (f (fst p), snd p)) (formatted_names run_sets)"
  unfolding formatted_names_def
  using formatted_names_fold_rename [of f "[]" run_sets] by simp

lemma map_of_rename:
  "inj_on f (insert k (fst ` set al)) \<Longrightarrow>
   map_of (map (\<lambda>p. (f (fst p), snd p)) al) (f k) = map_of al k"
proof (induction al)
  case Nil
  show ?case by simp
next
  case (Cons p al)
  have i: "inj_on f (insert k (fst ` set al))"
    by (rule inj_on_subset [OF Cons.prems]) auto
  have e: "(f (fst p) = f k) = (fst p = k)"
    using Cons.prems by (auto simp: inj_on_def)
  show ?case using Cons.IH [OF i] e by (cases p) auto
qed

lemma provide_rename [simp]:
  "provide_latex_commands (rename_id f r) stat_list c = provide_latex_commands r stat_list c"
  by (simp add: provide_latex_commands_def rename_id_def)

lemma run_sets_loop_rename:
  assumes "\<forall>z \<in> set zs. map_of names' (f (rs_id (fst z))) = map_of names (rs_id (fst z))"
  shows "run_sets_loop names' total_count used (map (\<lambda>z. (rename_id f (fst z), snd z)) zs)
     = run_sets_loop names total_count used zs"
  using assms
proof (induction zs arbitrary: used)
  case Nil
  show ?case by simp
next
  case (Cons z zs)
  obtain run_set stat_list where z: "z = (run_set, stat_list)" by (cases z)
  have l: "map_of names' (f (rs_id run_set)) = map_of names (rs_id run_set)"
    using Cons.prems z by simp
  have r: "rs_id (rename_id f run_set) = f (rs_id run_set)" by (simp add: rename_id_def)
  have ih: "run_sets_loop names' total_count used' (map (\<lambda>z. (rename_id f (fst z), snd z)) zs)
     = run_sets_loop names total_count used' zs" for used'
    using Cons.prems by (intro Cons.IH) simp
  show ?case
    unfolding z
    by (cases "map_of names (rs_id run_set)") (simp_all add: l r Let_def split_def ih)
qed

lemma tex_commands_rename:
  assumes "inj_on f (rs_id ` set run_sets)"
  shows "tex_commands (map (rename_id f) run_sets) stats = tex_commands run_sets stats"
proof -
  let ?names = "formatted_names run_sets"
  let ?names' = "formatted_names (map (rename_id f) run_sets)"
  have n: "?names' = map (\<lambda>p. (f (fst p), snd p)) ?names"
    by (rule formatted_names_rename [OF assms])
  have keys: "fst ` set ?names = rs_id ` set run_sets"
    unfolding formatted_names_def formatted_names_fold_keys by simp
  have t: "names_total_counts ?names' = names_total_counts ?names"
    by (simp add: names_total_counts_def n comp_def)
  have look: "\<forall>z \<in> set (zip run_sets stats).
      map_of ?names' (f (rs_id (fst z))) = map_of ?names (rs_id (fst z))"
  proof
    fix z assume "z \<in> set (zip run_sets stats)"
    then have "fst z \<in> set run_sets" by (rule zip_fst_in)
    then have "insert (rs_id (fst z)) (fst ` set ?names) = rs_id ` set run_sets"
      unfolding keys by auto
    with assms have "inj_on f (insert (rs_id (fst z)) (fst ` set ?names))" by simp
    then show "map_of ?names' (f (rs_id (fst z))) = map_of ?names (rs_id (fst z))"
      unfolding n by (rule map_of_rename)
  qed
  have z: "zip (map (rename_id f) run_sets) stats
      = map (\<lambda>z. (rename_id f (fst z), snd z)) (zip run_sets stats)"
    by (simp add: zip_map1 split_def)
  show ?thesis
    unfolding tex_commands_def Let_def t z
    by (rule run_sets_loop_rename [OF look])
qed

lemma leaf_command_prefix:
  "benchmark_name (leaf_command init n k t) = benchmark_name init
   \<and> runset_name (leaf_command init n k t) = runset_name init
   \<and> column_title (leaf_command init n k t) = column_title init"
  by (simp add: leaf_command_def)

lemma stat_name_commands_prefix:
  assumes "c \<in> set (stat_name_commands init column e)"
  shows "benchmark_name c = benchmark_name init \<and> runset_name c = runset_name init
     \<and> column_title c = column_title init"
proof (cases e)
  case (Pair stat_name sv)
  show ?thesis
  proof (cases sv)
    case None
    with Pair assms show ?thesis by (simp add: stat_name_commands_absent)
  next
    case (Some kvs)
    with Pair assms show ?thesis
      by (auto simp: stat_name_commands_present leaf_command_prefix split: if_splits)
  qed
qed

lemma column_statistic_prefix:
  assumes "c \<in> set (column_statistic_to_latex_command init cs column)"
  shows "benchmark_name c = benchmark_name init \<and> runset_name c = runset_name init
     \<and> column_title c = column_title init"
  using assms
  by (cases cs) (auto simp: column_statistic_to_latex_command_def dest: stat_name_commands_prefix)

lemma provide_prefix:
  assumes "c \<in> set (fst (provide_latex_commands run_set stat_list init))"
  shows "benchmark_name c = benchmark_name init \<and> runset_name c = runset_name init
     \<and> (\<exists>j<min (length (columns run_set)) (length stat_list).
          column_title c = format_command_part
            (column_titles run_set ! j @ resolver_suffix (column_titles run_set) j))"
proof -
  from assms obtain j where j: "j < min (length (columns run_set)) (length stat_list)"
    and c: "c \<in> set (column_statistic_to_latex_command
              (init\<lparr>column_title := format_command_part
                 (column_titles run_set ! j @ resolver_suffix (column_titles run_set) j)\<rparr>)
              (stat_list ! j) (columns run_set ! j))"
    unfolding provide_latex_commands_eq by auto
  from column_statistic_prefix [OF c] j show ?thesis by auto
qed

lemma format_idem: "format_command_part (format_command_part b) = format_command_part b"
  by (intro format_capitalized capitalized_format)

lemma write_tex_command_table_total:
  "write_tex_command_table out run_sets stats =
     Inr (out @ TEX_HEADER @ concat (map command_line (emitted (tex_commands run_sets stats))),
          logged (tex_commands run_sets stats))"
  by (subst write_tex_command_table_def, subst tex_commands_total) simp

section \<open>The run sets as the loop looks them up\<close>

lemma runset_suffix_nth:
  assumes "i < n" and "n \<le> length run_sets"
  shows "suffixes (names_total_counts (formatted_names run_sets)) (\<lambda>_. 0)
           (take n (looked_up_keys run_sets)) ! i = runset_suffix run_sets i"
proof -
  let ?ks = "looked_up_keys run_sets"
  have l: "length ?ks = length run_sets" by (simp add: looked_up_keys_def)
  have "take (Suc i) (take n ?ks) = take (Suc i) ?ks"
    using assms by (simp add: min_def)
  moreover have "take n ?ks ! i = ?ks ! i" using assms by simp
  moreover have "i < length (take n ?ks)" using assms l by simp
  ultimately show ?thesis
    by (simp add: suffixes_nth runset_suffix_def occurrence_index_def Suc_le_eq numeral_2_eq_2)
qed

lemma emitted_tex_commands:
  "emitted (tex_commands run_sets stats) =
     concat (map (\<lambda>i. fst (provide_latex_commands (run_sets ! i) (stats ! i)
                    (new_latex_command
                       (fst (looked_up_keys run_sets ! i) @ runset_suffix run_sets i)
                       (snd (looked_up_keys run_sets ! i)))))
       [0..<min (length run_sets) (length stats)])"
proof -
  let ?names = "formatted_names run_sets"
  let ?key = "\<lambda>r. the (map_of ?names (rs_id r))"
  let ?ks = "looked_up_keys run_sets"
  let ?n = "min (length run_sets) (length stats)"
  let ?zs = "zip run_sets stats"
  let ?sfx = "suffixes (names_total_counts ?names) (\<lambda>_. 0) (map (\<lambda>z. ?key (fst z)) ?zs)"
  have look: "\<forall>z \<in> set ?zs. map_of ?names (rs_id (fst z)) = Some (?key (fst z))"
  proof
    fix z assume "z \<in> set ?zs"
    then have "fst z \<in> set run_sets" by (rule zip_fst_in)
    from formatted_names_lookup [OF this] show
      "map_of ?names (rs_id (fst z)) = Some (?key (fst z))" by auto
  qed
  have "map (\<lambda>z. ?key (fst z)) ?zs = take (length stats) ?ks"
    unfolding looked_up_keys_def by (rule zip_keys)
  also have "\<dots> = take ?n ?ks"
    by (simp add: looked_up_keys_def min_def)
  finally have keys: "map (\<lambda>z. ?key (fst z)) ?zs = take ?n ?ks" .
  have len: "length ?sfx = length ?zs" by (simp add: length_suffixes)
  have lz: "length ?zs = ?n" by simp
  have sfx: "?sfx ! i = runset_suffix run_sets i" if "i < ?n" for i
    unfolding keys using that by (intro runset_suffix_nth) simp_all
  have k: "?key (run_sets ! i) = ?ks ! i" if "i < ?n" for i
    using that by (simp add: looked_up_keys_def)
  show ?thesis
    unfolding tex_commands_def Let_def run_sets_loop_eq [OF look] emitted_def
    by (simp only: map_zip_nth [OF len] lz sum.case prod.case)
       (auto intro!: arg_cong [where f = concat] simp: sfx k)
qed

lemma update_entries: "set (AList.update k v al) \<subseteq> insert (k, v) (set al)"
  by (induction al) auto

lemma formatted_names_fold_entries:
  "set (foldl (\<lambda>names run_set. AList.update (rs_id run_set) (formatted_name run_set) names)
       acc run_sets)
   \<subseteq> set acc \<union> (\<lambda>r. (rs_id r, formatted_name r)) ` set run_sets"
proof (induction run_sets arbitrary: acc)
  case Nil
  show ?case by simp
next
  case (Cons r rs)
  show ?case
    using Cons.IH [of "AList.update (rs_id r) (formatted_name r) acc"]
      update_entries [of "rs_id r" "formatted_name r" acc]
    by auto
qed

lemma looked_up_key_object:
  assumes "i < length run_sets"
  shows "\<exists>r\<in>set run_sets. rs_id r = rs_id (run_sets ! i)
     \<and> looked_up_keys run_sets ! i = formatted_name r"
proof -
  let ?x = "run_sets ! i"
  have x: "?x \<in> set run_sets" using assms by simp
  from formatted_names_lookup [OF x] obtain v
    where v: "map_of (formatted_names run_sets) (rs_id ?x) = Some v" by auto
  then have "(rs_id ?x, v) \<in> set (formatted_names run_sets)" by (rule map_of_SomeD)
  with formatted_names_fold_entries [of "[]" run_sets]
  obtain r where "r \<in> set run_sets" "rs_id r = rs_id ?x" "v = formatted_name r"
    unfolding formatted_names_def by auto
  with v assms show ?thesis by (auto simp: looked_up_keys_def)
qed

lemma capitalized_runset_suffix: "capitalized (runset_suffix run_sets i)"
  by (simp add: runset_suffix_def capitalized_roman) (simp add: capitalized_def)

lemma format_runset_suffix:
  "format_command_part (format_command_part b @ runset_suffix run_sets i)
     = format_command_part b @ runset_suffix run_sets i"
  by (intro format_capitalized capitalized_append capitalized_format capitalized_runset_suffix)

section \<open>The text written\<close>

lemma command_line_text:
  "command_line c =
     CHR 0x5C # ''StoreBenchExecResult{'' @ benchmark_name c @ ''}{'' @ runset_name c
     @ ''}{'' @ column_title c @ ''}{'' @ column_category c @ ''}{'' @ column_subcategory c
     @ ''}{'' @ stat_type c @ ''}{'' @ (case cmd_value c of None \<Rightarrow> [] | Some s \<Rightarrow> s)
     @ ''}%'' @ [CHR 0x0A]"
  by (simp add: command_line_def to_latex_raw_def get_command_formatted_def repr_def braced_def
      backslash_def newline_def)

lemma stat_name_commands_walk:
  "concat (map (stat_name_commands init column) entries)
     = map (\<lambda>(category, subcategory, kind, text).
              init\<lparr>column_category := category, column_subcategory := subcategory,
                   stat_type := kind, cmd_value := Some text\<rparr>)
         (walk column (Some entries))"
  unfolding walk_def
  by (induction entries rule: present.induct)
     (simp_all add: stat_name_commands_absent stat_name_commands_present leaf_command_def
        comp_def split_def)

lemma column_statistic_walk:
  "column_statistic_to_latex_command init column_statistic column
     = map (\<lambda>(category, subcategory, kind, text).
              init\<lparr>column_category := category, column_subcategory := subcategory,
                   stat_type := kind, cmd_value := Some text\<rparr>)
         (walk column column_statistic)"
proof (cases column_statistic)
  case None
  then show ?thesis by (simp add: column_statistic_to_latex_command_def walk_def)
next
  case (Some entries)
  then show ?thesis
    using stat_name_commands_walk [of init column entries]
    by (simp add: column_statistic_to_latex_command_def)
qed

lemma looked_up_key_formatted:
  fixes run_sets :: "'v run_set list"
  assumes "i < length run_sets"
  shows "format_command_part (fst (looked_up_keys run_sets ! i) @ runset_suffix run_sets i)
           = fst (looked_up_keys run_sets ! i) @ runset_suffix run_sets i
     \<and> format_command_part (snd (looked_up_keys run_sets ! i)) = snd (looked_up_keys run_sets ! i)"
proof -
  from looked_up_key_object [OF assms] obtain r
    where r: "looked_up_keys run_sets ! i = formatted_name (r :: 'v run_set)" by blast
  show ?thesis unfolding r by (simp add: formatted_name_def format_runset_suffix format_idem)
qed

lemma concat_map_concat:
  "concat (map f (concat xss)) = concat (map (\<lambda>xs. concat (map f xs)) xss)"
  by (induction xss) auto

lemma provide_walk:
  assumes "i < length run_sets"
  shows "fst (provide_latex_commands run_set stat_list
           (new_latex_command (fst (looked_up_keys run_sets ! i) @ runset_suffix run_sets i)
              (snd (looked_up_keys run_sets ! i))))
     = concat (map (\<lambda>j.
         map (\<lambda>(category, subcategory, kind, text).
               \<lparr>benchmark_name = fst (looked_up_keys run_sets ! i) @ runset_suffix run_sets i,
                runset_name = snd (looked_up_keys run_sets ! i),
                column_title = format_command_part
                  (column_titles run_set ! j @ resolver_suffix (column_titles run_set) j),
                column_category = category, column_subcategory = subcategory,
                stat_type = kind, cmd_value = Some text\<rparr>)
           (walk (columns run_set ! j) (stat_list ! j)))
         [0..<min (length (columns run_set)) (length stat_list)])"
  unfolding provide_latex_commands_eq
  using looked_up_key_formatted [OF assms]
  by (simp add: column_statistic_walk new_latex_command_def split_def)

lemma emitted_walk:
  "emitted (tex_commands run_sets stats)
   = concat (map (\<lambda>i.
       concat (map (\<lambda>j.
         map (\<lambda>(category, subcategory, kind, text).
               \<lparr>benchmark_name = fst (looked_up_keys run_sets ! i) @ runset_suffix run_sets i,
                runset_name = snd (looked_up_keys run_sets ! i),
                column_title = format_command_part
                  (column_titles (run_sets ! i) ! j
                   @ resolver_suffix (column_titles (run_sets ! i)) j),
                column_category = category, column_subcategory = subcategory,
                stat_type = kind, cmd_value = Some text\<rparr>)
           (walk (columns (run_sets ! i) ! j) (stats ! i ! j)))
         [0..<min (length (columns (run_sets ! i))) (length (stats ! i))]))
       [0..<min (length run_sets) (length stats)])"
  unfolding emitted_tex_commands
  by (rule arg_cong [where f = concat], rule map_cong [OF refl], rule provide_walk) simp

lemma written_text:
  "concat (map command_line (emitted (tex_commands run_sets stats)))
   = concat (map (\<lambda>i.
       concat (map (\<lambda>j.
         concat (map (\<lambda>(category, subcategory, kind, text).
             CHR 0x5C # ''StoreBenchExecResult{''
             @ fst (looked_up_keys run_sets ! i) @ runset_suffix run_sets i
             @ ''}{'' @ snd (looked_up_keys run_sets ! i)
             @ ''}{'' @ format_command_part
                 (column_titles (run_sets ! i) ! j @ resolver_suffix (column_titles (run_sets ! i)) j)
             @ ''}{'' @ category @ ''}{'' @ subcategory @ ''}{'' @ kind @ ''}{'' @ text
             @ ''}%'' @ [CHR 0x0A])
           (walk (columns (run_sets ! i) ! j) (stats ! i ! j))))
         [0..<min (length (columns (run_sets ! i))) (length (stats ! i))]))
       [0..<min (length run_sets) (length stats)])"
  unfolding emitted_walk
  by (simp add: concat_map_concat comp_def split_def command_line_text)

section \<open>The sanitizer on numerals\<close>

text \<open>
  C5: the label \<open>7\<close> is replaced by the Roman numeral of 7 and sanitizes to \<open>VII\<close>, a
  non-empty fragment of letters only; the label \<open>0\<close> is not replaced (the pattern wants
  digits from 1 to 9) and, holding no letter, sanitizes to the empty fragment.
\<close>

theorem format_command_part_seven_zero:
  "sub_roman ''7'' = number_to_roman_string 7
   \<and> format_command_part ''7'' = cap_first_letter (number_to_roman_string 7)
   \<and> format_command_part ''7'' = ''VII''
   \<and> format_command_part ''7'' \<noteq> []
   \<and> list_all is_letter (format_command_part ''7'')
   \<and> sub_roman ''0'' = ''0''
   \<and> format_command_part ''0'' = concat (map cap_first_letter (split_at (\<lambda>c. \<not> is_letter c) ''0''))
   \<and> format_command_part ''0'' = []"
  by code_simp

section \<open>The statistic record walker\<close>

text \<open>
  C6: inside a present \<open>StatValue\<close>, a kind whose value is absent is skipped: it yields
  no leaf, and the commands are those of the record without that entry. A kind whose
  value is the number 0 is not skipped: it yields, at its place in the order, one leaf
  with that kind and the rendered text of 0.
\<close>

theorem stat_kinds_absent_vs_zero:
  fixes column :: "('v::zero) column"
  shows "snd (stat_kinds column c (kvs @ (k, None) # kvs')) = snd (stat_kinds column c (kvs @ kvs'))
    \<and> snd (stat_kinds column c (kvs @ (k, Some 0) # kvs'))
        = snd (stat_kinds column c kvs)
          @ c\<lparr>stat_type := format_command_part k, cmd_value := Some (format_value column 0)\<rparr>
          # snd (stat_kinds column c kvs')
    \<and> stat_name_commands init column (stat_name, Some (kvs @ (k, None) # kvs'))
        = stat_name_commands init column (stat_name, Some (kvs @ kvs'))
    \<and> leaf_command init stat_name k (format_value column 0)
        \<in> set (stat_name_commands init column (stat_name, Some (kvs @ (k, Some 0) # kvs')))
    \<and> length (stat_name_commands init column (stat_name, Some (kvs @ (k, Some 0) # kvs')))
        = Suc (length (stat_name_commands init column (stat_name, Some (kvs @ kvs'))))"
  by (simp add: stat_kinds_yielded stat_name_commands_present present_append kind_command_def)

theorem stat_kinds_absent_vs_zero_witness:
  "map to_latex_raw
     (snd (stat_kinds (example_column ''cputime'' None) example_command
        ([] @ (''sum'', Some 0) # [(''min'', None), (''max'', Some 12)])))
   = [backslash # ''StoreBenchExecResult{Svcomp}{ToolA}{Cputime}{}{}{Sum}{0}'',
      backslash # ''StoreBenchExecResult{Svcomp}{ToolA}{Cputime}{}{}{Max}{12}'']"
proof -
  have e: "map to_latex_raw
     (snd (stat_kinds (example_column ''cputime'' None) example_command [])
      @ example_command\<lparr>stat_type := format_command_part ''sum'',
          cmd_value := Some (format_value (example_column ''cputime'' None) 0)\<rparr>
      # snd (stat_kinds (example_column ''cputime'' None) example_command
          [(''min'', None), (''max'', Some 12)]))
   = [backslash # ''StoreBenchExecResult{Svcomp}{ToolA}{Cputime}{}{}{Sum}{0}'',
      backslash # ''StoreBenchExecResult{Svcomp}{ToolA}{Cputime}{}{}{Max}{12}'']"
    by code_simp
  have t: "snd (stat_kinds (example_column ''cputime'' None) example_command
        ([] @ (''sum'', Some 0) # [(''min'', None), (''max'', Some 12)]))
     = snd (stat_kinds (example_column ''cputime'' None) example_command [])
      @ example_command\<lparr>stat_type := format_command_part ''sum'',
          cmd_value := Some (format_value (example_column ''cputime'' None) 0)\<rparr>
      # snd (stat_kinds (example_column ''cputime'' None) example_command
          [(''min'', None), (''max'', Some 12)])"
    using stat_kinds_absent_vs_zero [where column = "example_column ''cputime'' None"
        and c = example_command and kvs = "[]" and k = "''sum''"
        and kvs' = "[(''min'', None), (''max'', Some 12)]"]
    by (rule conjunct2 [THEN conjunct1])
  show ?thesis by (simp only: t e)
qed

text \<open>
  C7: for a column with a declared, non-empty unit, every statistic name that is
  processed (its \<open>StatValue\<close> is present) yields, after the leaves of its kinds, exactly
  one more leaf of kind \<open>unit\<close>, with the category and subcategory of that statistic
  and the text of the unit as it is.
\<close>

theorem unit_leaf_per_statistic:
  assumes "unit column = Some u" and "u \<noteq> []"
  shows "column_statistic_to_latex_command init (Some entries) column =
     concat (map (\<lambda>(stat_name, kvs).
                    map (\<lambda>(k, x). leaf_command init stat_name k (format_value column x)) (present kvs)
                    @ [leaf_command init stat_name ''unit'' u])
              (present entries))
   \<and> stat_type (leaf_command init stat_name ''unit'' u) = ''Unit''
   \<and> cmd_value (leaf_command init stat_name ''unit'' u) = Some u"
proof -
  have "concat (map (stat_name_commands init column) entries) =
     concat (map (\<lambda>(stat_name, kvs).
                    map (\<lambda>(k, x). leaf_command init stat_name k (format_value column x)) (present kvs)
                    @ [leaf_command init stat_name ''unit'' u])
              (present entries))"
    by (induction entries rule: present.induct)
       (simp_all add: stat_name_commands_absent stat_name_commands_present truthy_def assms)
  moreover have "format_command_part ''unit'' = ''Unit''" by code_simp
  ultimately show ?thesis
    by (simp add: column_statistic_to_latex_command_def leaf_command_def)
qed

theorem unit_leaf_per_statistic_witness:
  "unit (example_column ''cputime'' (Some ''s'')) = Some ''s'' \<and> ''s'' \<noteq> []
   \<and> map to_latex_raw
       (column_statistic_to_latex_command example_command
          (Some [(''total'', Some [(''sum'', Some 0), (''min'', None), (''max'', Some 12)]),
                 (''correct_true'', None),
                 (''correct_false'', Some [(''sum'', Some 7)])])
          (example_column ''cputime'' (Some ''s'')))
     = [backslash # ''StoreBenchExecResult{Svcomp}{ToolA}{Cputime}{Total}{}{Sum}{0}'',
        backslash # ''StoreBenchExecResult{Svcomp}{ToolA}{Cputime}{Total}{}{Max}{12}'',
        backslash # ''StoreBenchExecResult{Svcomp}{ToolA}{Cputime}{Total}{}{Unit}{s}'',
        backslash # ''StoreBenchExecResult{Svcomp}{ToolA}{Cputime}{Correct}{False}{Sum}{7}'',
        backslash # ''StoreBenchExecResult{Svcomp}{ToolA}{Cputime}{Correct}{False}{Unit}{s}'']"
proof -
  have u: "unit (example_column ''cputime'' (Some ''s'')) = Some ''s''"
    by (simp add: example_column_def)
  have n: "''s'' \<noteq> []" by simp
  have e: "map to_latex_raw
       (concat (map (\<lambda>(stat_name, kvs).
                    map (\<lambda>(k, x). leaf_command example_command stat_name k
                           (format_value (example_column ''cputime'' (Some ''s'')) x)) (present kvs)
                    @ [leaf_command example_command stat_name ''unit'' ''s''])
              (present [(''total'', Some [(''sum'', Some 0), (''min'', None), (''max'', Some 12)]),
                 (''correct_true'', None),
                 (''correct_false'', Some [(''sum'', Some 7)])])))
     = [backslash # ''StoreBenchExecResult{Svcomp}{ToolA}{Cputime}{Total}{}{Sum}{0}'',
        backslash # ''StoreBenchExecResult{Svcomp}{ToolA}{Cputime}{Total}{}{Max}{12}'',
        backslash # ''StoreBenchExecResult{Svcomp}{ToolA}{Cputime}{Total}{}{Unit}{s}'',
        backslash # ''StoreBenchExecResult{Svcomp}{ToolA}{Cputime}{Correct}{False}{Sum}{7}'',
        backslash # ''StoreBenchExecResult{Svcomp}{ToolA}{Cputime}{Correct}{False}{Unit}{s}'']"
    by code_simp
  note t = unit_leaf_per_statistic [OF u n, where init = example_command, THEN conjunct1]
  show ?thesis by (simp only: t u n e simp_thms)
qed

text \<open>
  C10: for a statistic name whose \<open>StatValue\<close> is present while all its kinds are
  absent, a column with a non-empty unit yields the unit leaf all the same, with the
  category and subcategory of that statistic, and nothing else.
\<close>

theorem unit_leaf_without_kinds:
  assumes "unit column = Some u" and "u \<noteq> []" and "\<forall>(k, v) \<in> set kvs. v = None"
  shows "stat_name_commands init column (stat_name, Some kvs) =
     [init\<lparr>column_category := stat_category stat_name,
            column_subcategory := stat_subcategory stat_name,
            stat_type := ''Unit'', cmd_value := Some u\<rparr>]"
proof -
  have "format_command_part ''unit'' = ''Unit''" by code_simp
  then show ?thesis using assms
    by (simp add: stat_name_commands_present present_all_absent truthy_def leaf_command_def)
qed

theorem unit_leaf_without_kinds_witness:
  "unit (example_column ''cputime'' (Some ''s'')) = Some ''s'' \<and> ''s'' \<noteq> []
   \<and> list_all (\<lambda>(k, v). v = None) [(''sum'', None :: int option), (''min'', None)]
   \<and> map to_latex_raw (stat_name_commands example_command (example_column ''cputime'' (Some ''s''))
        (''correct_true'', Some [(''sum'', None), (''min'', None)]))
      = [backslash # ''StoreBenchExecResult{Svcomp}{ToolA}{Cputime}{Correct}{True}{Unit}{s}'']"
proof -
  have u: "unit (example_column ''cputime'' (Some ''s'')) = Some ''s''"
    by (simp add: example_column_def)
  have n: "''s'' \<noteq> []" by simp
  have a: "\<forall>(k, v) \<in> set [(''sum'', None :: int option), (''min'', None)]. v = None" by simp
  have e: "map to_latex_raw [example_command\<lparr>column_category := stat_category ''correct_true'',
            column_subcategory := stat_subcategory ''correct_true'',
            stat_type := ''Unit'', cmd_value := Some ''s''\<rparr>]
      = [backslash # ''StoreBenchExecResult{Svcomp}{ToolA}{Cputime}{Correct}{True}{Unit}{s}'']"
    by code_simp
  then show ?thesis
    using u n a unit_leaf_without_kinds [OF u n a, of example_command "''correct_true''"]
    by simp
qed

section \<open>The collision resolver\<close>





text \<open>
  C2, as the code has it: at the level of the run sets the suffix goes to the
  benchmark-name fragment, the first fragment of the key, and the run-set-name fragment
  is never suffixed. Every command written belongs to a listed run set \<open>i\<close> that is
  paired with statistics: with \<open>r\<close> the object listed there (a run set of the list with
  the identity of the one at \<open>i\<close>), its benchmark-name fragment is the sanitized
  benchmark name of \<open>r\<close> followed by the suffix of \<open>i\<close>, its run-set-name fragment is
  the sanitized nice name of \<open>r\<close> and nothing more, and its column-title fragment is,
  for one of the paired columns, the sanitized text of the selected title followed by
  the suffix of that column. This holds for every list of run sets, also when an object
  is listed more than once.
\<close>

theorem suffix_on_benchmark_name:
  assumes "c \<in> set (emitted (tex_commands run_sets stats))"
  shows "\<exists>i<min (length run_sets) (length stats). \<exists>r\<in>set run_sets.
     rs_id r = rs_id (run_sets ! i)
     \<and> benchmark_name c = format_command_part (benchmarkname r) @ runset_suffix run_sets i
     \<and> runset_name c = format_command_part (niceName r)
     \<and> (\<exists>j<min (length (columns (run_sets ! i))) (length (stats ! i)).
          column_title c = format_command_part
            (column_titles (run_sets ! i) ! j @ resolver_suffix (column_titles (run_sets ! i)) j))"
proof -
  let ?ks = "looked_up_keys run_sets"
  from assms obtain i where i: "i < min (length run_sets) (length stats)"
    and c: "c \<in> set (fst (provide_latex_commands (run_sets ! i) (stats ! i)
              (new_latex_command (fst (?ks ! i) @ runset_suffix run_sets i) (snd (?ks ! i)))))"
    unfolding emitted_tex_commands by auto
  from i have "i < length run_sets" by simp
  from looked_up_key_object [OF this] obtain r where r: "r \<in> set run_sets"
    "rs_id r = rs_id (run_sets ! i)" "?ks ! i = formatted_name r" by auto
  from provide_prefix [OF c] i r show ?thesis
    by (auto simp: formatted_name_def new_latex_command_def format_runset_suffix format_idem
        intro!: bexI [of _ r])
qed


theorem suffix_on_benchmark_name_witness:
  "(\<exists>i<min (length listed_thrice) (length (replicate 3 [example_record])). \<exists>r\<in>set listed_thrice.
     rs_id r = rs_id (listed_thrice ! i)
     \<and> benchmark_name
         \<lparr>benchmark_name = ''SvcompIII'', runset_name = ''ToolA'', column_title = ''Cputime'',
          column_category = ''Total'', column_subcategory = [], stat_type = ''Sum'',
          cmd_value = Some ''3''\<rparr>
       = format_command_part (benchmarkname r) @ runset_suffix listed_thrice i
     \<and> runset_name
         \<lparr>benchmark_name = ''SvcompIII'', runset_name = ''ToolA'', column_title = ''Cputime'',
          column_category = ''Total'', column_subcategory = [], stat_type = ''Sum'',
          cmd_value = Some ''3''\<rparr>
       = format_command_part (niceName r)
     \<and> (\<exists>j<min (length (columns (listed_thrice ! i))) (length (replicate 3 [example_record] ! i)).
          column_title
         \<lparr>benchmark_name = ''SvcompIII'', runset_name = ''ToolA'', column_title = ''Cputime'',
          column_category = ''Total'', column_subcategory = [], stat_type = ''Sum'',
          cmd_value = Some ''3''\<rparr>
          = format_command_part
            (column_titles (listed_thrice ! i) ! j
             @ resolver_suffix (column_titles (listed_thrice ! i)) j)))
   \<and> map name_fragments (emitted (tex_commands listed_thrice (replicate 3 [example_record])))
       = [(''SvcompI'', ''ToolA''), (''SvcompII'', ''ToolA''), (''SvcompIII'', ''ToolA'')]
   \<and> map rs_id listed_thrice = [0, 0, 1]"
proof -
  have m: "\<lparr>benchmark_name = ''SvcompIII'', runset_name = ''ToolA'', column_title = ''Cputime'',
        column_category = ''Total'', column_subcategory = [], stat_type = ''Sum'',
        cmd_value = Some ''3''\<rparr>
      \<in> set (emitted (tex_commands listed_thrice (replicate 3 [example_record])))"
    by code_simp
  have e: "map name_fragments (emitted (tex_commands listed_thrice (replicate 3 [example_record])))
       = [(''SvcompI'', ''ToolA''), (''SvcompII'', ''ToolA''), (''SvcompIII'', ''ToolA'')]"
    by code_simp
  have d: "map rs_id listed_thrice = [0, 0, 1]"
    by (simp add: listed_thrice_def example_run_set_def)
  show ?thesis
    by (intro conjI) (rule suffix_on_benchmark_name [OF m], rule e, rule d)
qed

text \<open>
  C2 as stated fails: two run sets with the key (Svcomp, ToolA) are written with the
  benchmark-name fragments SvcompI and SvcompII and the run-set-name fragment ToolA,
  not with the run-set-name fragments ToolAI and ToolAII.
\<close>

theorem runset_suffix_counterexample:
  "map name_fragments (emitted (tex_commands twin_run_sets (replicate 2 [example_record])))
     = [(''SvcompI'', ''ToolA''), (''SvcompII'', ''ToolA'')]
   \<and> map name_fragments (emitted (tex_commands twin_run_sets (replicate 2 [example_record])))
     \<noteq> [(''Svcomp'', ''ToolAI''), (''Svcomp'', ''ToolAII'')]
   \<and> runset_keys twin_run_sets = [(''Svcomp'', ''ToolA''), (''Svcomp'', ''ToolA'')]"
  by code_simp


text \<open>
  C3 fails on the code: the columns are counted by their selected titles as they are, not
  by the sanitized fragments. The titles \<open>score1\<close> and \<open>score2\<close> differ, so neither
  is suffixed and no warning is logged, and both are written with the column-title
  fragment \<open>Score\<close>.
\<close>

theorem column_titles_compared_unformatted:
  "column_titles score_run_set = [''score1'', ''score2'']
   \<and> map format_command_part (column_titles score_run_set) = [''Score'', ''Score'']
   \<and> map column_title
        (fst (provide_latex_commands score_run_set [example_record, example_record]
           (new_latex_command ''svcomp'' ''tool a'')))
      = [''Score'', ''Score'']
   \<and> snd (provide_latex_commands score_run_set [example_record, example_record]
           (new_latex_command ''svcomp'' ''tool a'')) = []"
  by code_simp

section \<open>The identifiers of the commands\<close>

text \<open>
  C1 fails on the code: for one run set with the columns \<open>cpu-time\<close> and \<open>cpu time\<close>
  and the same statistic for both, the two commands written have the same six-fragment
  identifier.
\<close>

theorem duplicate_identifiers:
  "map command_id (emitted (tex_commands [cpu_run_set] [[example_record, example_record]]))
     = [(''Svcomp'', ''ToolA'', ''CpuTime'', ''Total'', [], ''Sum''),
        (''Svcomp'', ''ToolA'', ''CpuTime'', ''Total'', [], ''Sum'')]
   \<and> \<not> distinct (map command_id
          (emitted (tex_commands [cpu_run_set] [[example_record, example_record]])))"
  by code_simp

section \<open>Order and determinism\<close>

text \<open>
  C8: a pass never fails, and the text it writes is this function of its input: the
  header, then, for the run sets paired with their lists of statistics in the order of
  the input, for the columns of each run set paired with their records in order, and
  for the leaves that the walker yields for each record (statistic names in the order
  of the record, kinds in their order, then the unit), one line per leaf that holds the
  control sequence, the three fragments of the run set and the column, the category,
  subcategory and kind of the leaf and its text, and ends with the comment sign and the
  end of the line. The leaves of the commands written are those of the walker in that
  order. The one thing that changes from a pass to the next is the identities of the
  run-set objects: giving the run sets other identities, still different for different
  objects, changes neither the text written nor the warnings.
\<close>

theorem generation_order:
  "write_tex_command_table out run_sets stats =
     Inr (out @ TEX_HEADER
          @ concat (map (\<lambda>i.
              concat (map (\<lambda>j.
                concat (map (\<lambda>(category, subcategory, kind, text).
                    CHR 0x5C # ''StoreBenchExecResult{''
                    @ fst (looked_up_keys run_sets ! i) @ runset_suffix run_sets i
                    @ ''}{'' @ snd (looked_up_keys run_sets ! i)
                    @ ''}{'' @ format_command_part
                        (column_titles (run_sets ! i) ! j
                         @ resolver_suffix (column_titles (run_sets ! i)) j)
                    @ ''}{'' @ category @ ''}{'' @ subcategory @ ''}{'' @ kind @ ''}{'' @ text
                    @ ''}%'' @ [CHR 0x0A])
                  (walk (columns (run_sets ! i) ! j) (stats ! i ! j))))
                [0..<min (length (columns (run_sets ! i))) (length (stats ! i))]))
              [0..<min (length run_sets) (length stats)]),
          logged (tex_commands run_sets stats))
   \<and> map leaf_of (emitted (tex_commands run_sets stats))
       = concat (map (\<lambda>(run_set, stat_list).
           concat (map (\<lambda>(column, column_stats). walk column column_stats)
             (zip (columns run_set) stat_list)))
           (zip run_sets stats))
   \<and> (inj_on f (rs_id ` set run_sets) \<longrightarrow>
        write_tex_command_table out (map (rename_id f) run_sets) stats
          = write_tex_command_table out run_sets stats)"
proof (intro conjI impI)
  show "write_tex_command_table out run_sets stats =
     Inr (out @ TEX_HEADER
          @ concat (map (\<lambda>i.
              concat (map (\<lambda>j.
                concat (map (\<lambda>(category, subcategory, kind, text).
                    CHR 0x5C # ''StoreBenchExecResult{''
                    @ fst (looked_up_keys run_sets ! i) @ runset_suffix run_sets i
                    @ ''}{'' @ snd (looked_up_keys run_sets ! i)
                    @ ''}{'' @ format_command_part
                        (column_titles (run_sets ! i) ! j
                         @ resolver_suffix (column_titles (run_sets ! i)) j)
                    @ ''}{'' @ category @ ''}{'' @ subcategory @ ''}{'' @ kind @ ''}{'' @ text
                    @ ''}%'' @ [CHR 0x0A])
                  (walk (columns (run_sets ! i) ! j) (stats ! i ! j))))
                [0..<min (length (columns (run_sets ! i))) (length (stats ! i))]))
              [0..<min (length run_sets) (length stats)]),
          logged (tex_commands run_sets stats))"
    unfolding write_tex_command_table_total written_text ..
  show "map leaf_of (emitted (tex_commands run_sets stats))
       = concat (map (\<lambda>(run_set, stat_list).
           concat (map (\<lambda>(column, column_stats). walk column column_stats)
             (zip (columns run_set) stat_list)))
           (zip run_sets stats))"
    by (rule walk_tex_commands_zip)
  assume "inj_on f (rs_id ` set run_sets)"
  then show "write_tex_command_table out (map (rename_id f) run_sets) stats
          = write_tex_command_table out run_sets stats"
    by (simp add: write_tex_command_table_def tex_commands_rename)
qed

theorem generation_order_witness:
  "write_tex_command_table [] (map (rename_id (\<lambda>i. i + 10)) twin_run_sets)
       (replicate 2 [example_record])
     = write_tex_command_table [] twin_run_sets (replicate 2 [example_record])
   \<and> map leaf_of (emitted (tex_commands [cpu_run_set, rename_id Suc score_run_set]
        [[Some [(''total'', Some [(''sum'', Some 3), (''min'', Some 1)])], example_record],
         [None, Some [(''correct_true'', Some [(''sum'', Some 0)])]]]))
     = [(''Total'', [], ''Sum'', ''3''), (''Total'', [], ''Min'', ''1''),
        (''Total'', [], ''Sum'', ''3''), (''Correct'', ''True'', ''Sum'', ''0'')]
   \<and> write_tex_command_table [] [cpu_run_set, rename_id Suc score_run_set]
        [[Some [(''total'', Some [(''sum'', Some 3), (''min'', Some 1)])]],
         [None, Some [(''correct_true'', Some [(''sum'', Some 0)])]]]
     = Inr (''% The following definition defines a command for each value.'' @ CHR 0x0A
            # ''% The command name is the concatenation of the first six arguments.'' @ CHR 0x0A
            # ''% To override this definition, define '' @ CHR 0x5C # ''StoreBenchExecResult with ''
            @ CHR 0x5C # ''newcommand before including this file.'' @ CHR 0x0A
            # ''% Arguments: benchmark name, runset name, column title, column category, ''
            @ ''column subcategory, statistic, value'' @ CHR 0x0A
            # CHR 0x5C # ''providecommand'' @ CHR 0x5C # ''StoreBenchExecResult[7]{''
            @ CHR 0x5C # ''expandafter'' @ CHR 0x5C # ''newcommand'' @ CHR 0x5C
            # ''csname#1#2#3#4#5#6'' @ CHR 0x5C # ''endcsname{#7}}%'' @ CHR 0x0A
            # CHR 0x5C # ''StoreBenchExecResult{SvcompI}{ToolA}{CpuTime}{Total}{}{Sum}{3}%''
            @ CHR 0x0A
            # CHR 0x5C # ''StoreBenchExecResult{SvcompI}{ToolA}{CpuTime}{Total}{}{Min}{1}%''
            @ CHR 0x0A
            # CHR 0x5C # ''StoreBenchExecResult{SvcompII}{ToolA}{Score}{Correct}{True}{Sum}{0}%''
            @ [CHR 0x0A],
            logged (tex_commands [cpu_run_set, rename_id Suc score_run_set]
              [[Some [(''total'', Some [(''sum'', Some 3), (''min'', Some 1)])]],
               [None, Some [(''correct_true'', Some [(''sum'', Some 0)])]]]))"
proof -
  have i: "inj_on (\<lambda>i. i + 10) (rs_id ` set twin_run_sets)" by simp
  note t = generation_order [where f = "\<lambda>i. i + 10" and run_sets = twin_run_sets and out = "[]"
      and stats = "replicate 2 [example_record]", THEN conjunct2, THEN conjunct2, THEN mp, OF i]
  note u = generation_order [where run_sets = "[cpu_run_set, rename_id Suc score_run_set]"
      and stats = "[[Some [(''total'', Some [(''sum'', Some 3), (''min'', Some 1)])], example_record],
         [None, Some [(''correct_true'', Some [(''sum'', Some 0)])]]]", THEN conjunct2, THEN conjunct1]
  note w = generation_order [where run_sets = "[cpu_run_set, rename_id Suc score_run_set]"
      and out = "[]"
      and stats = "[[Some [(''total'', Some [(''sum'', Some 3), (''min'', Some 1)])]],
         [None, Some [(''correct_true'', Some [(''sum'', Some 0)])]]]", THEN conjunct1]
  show ?thesis
    by (simp only: t u w) code_simp
qed


section \<open>Lists of statistics shorter than the lists they are paired with\<close>

text \<open>
  C9: whatever the lengths of the lists, a pass ends without an error, and the leaves
  written are those of the run sets \<open>i\<close> and columns \<open>j\<close> below the shorter length of the
  two lists paired at each level, in order; run sets and columns beyond it yield no
  lines.
\<close>

theorem short_statistics_truncate:
  "(\<forall>e. write_tex_command_table out run_sets stats \<noteq> Inl e)
   \<and> map leaf_of (emitted (tex_commands run_sets stats))
       = concat (map (\<lambda>i.
           concat (map (\<lambda>j. walk (columns (run_sets ! i) ! j) (stats ! i ! j))
             [0..<min (length (columns (run_sets ! i))) (length (stats ! i))]))
           [0..<min (length run_sets) (length stats)])
   \<and> length (emitted (tex_commands run_sets stats))
       = sum_list (map (\<lambda>i.
           sum_list (map (\<lambda>j. length (walk (columns (run_sets ! i) ! j) (stats ! i ! j)))
             [0..<min (length (columns (run_sets ! i))) (length (stats ! i))]))
           [0..<min (length run_sets) (length stats)])"
proof (intro conjI allI)
  fix e
  show "write_tex_command_table out run_sets stats \<noteq> Inl e"
    by (subst write_tex_command_table_total) simp
  show l: "map leaf_of (emitted (tex_commands run_sets stats))
       = concat (map (\<lambda>i.
           concat (map (\<lambda>j. walk (columns (run_sets ! i) ! j) (stats ! i ! j))
             [0..<min (length (columns (run_sets ! i))) (length (stats ! i))]))
           [0..<min (length run_sets) (length stats)])"
    by (rule walk_tex_commands_nth)
  have "length (emitted (tex_commands run_sets stats))
      = length (map leaf_of (emitted (tex_commands run_sets stats)))" by simp
  also have "\<dots> = sum_list (map (\<lambda>i.
           sum_list (map (\<lambda>j. length (walk (columns (run_sets ! i) ! j) (stats ! i ! j)))
             [0..<min (length (columns (run_sets ! i))) (length (stats ! i))]))
           [0..<min (length run_sets) (length stats)])"
    unfolding l by (simp add: length_concat comp_def)
  finally show "length (emitted (tex_commands run_sets stats))
       = sum_list (map (\<lambda>i.
           sum_list (map (\<lambda>j. length (walk (columns (run_sets ! i) ! j) (stats ! i ! j)))
             [0..<min (length (columns (run_sets ! i))) (length (stats ! i))]))
           [0..<min (length run_sets) (length stats)])" .
qed

theorem short_statistics_truncate_witness:
  "map leaf_of (emitted (tex_commands [four_columns, score_run_set] [[example_record]]))
     = [(''Total'', [], ''Sum'', ''3'')]
   \<and> length (emitted (tex_commands [four_columns, score_run_set] [[example_record]])) = 1
   \<and> length [four_columns, score_run_set] = 2 \<and> length (columns four_columns) = 4"
proof -
  note t = short_statistics_truncate [where run_sets = "[four_columns, score_run_set]"
      and stats = "[[example_record]]", THEN conjunct2]
  show ?thesis
    by (simp only: t [THEN conjunct1] t [THEN conjunct2]) code_simp
qed


end
